theory Spec2Isabelle
  imports Main "HOL-Library.Sublist"
begin

section \<open>The Carrier HTTP client: data model\<close>

text \<open>
  The development follows the class \<open>Carrier\<close> of \<open>carrier.ts\<close> in its latest revision
  (the one with \<open>configureAuth\<close>, \<open>on\<close>, \<open>trigger\<close>, \<open>applyAuth\<close> and \<open>resolveUrl\<close>).

  JavaScript strings are modelled as \<open>string\<close>, read as the UTF-8 bytes of the text:
  an optional field (\<open>f?: T\<close>, \<open>T | null\<close>) is an \<open>option\<close>, and the truthiness test
  of the source (\<open>x || y\<close>, \<open>if (x)\<close>, \<open>!x\<close>) is written out: an absent value and the
  empty string are both falsy.
\<close>

datatype json =
    JNull
  | JBool bool
  | JNum int
  | JStr string
  | JArr "json list"
  | JObj "(string \<times> json) list"

datatype exn = Error string | TypeError string

datatype http_method = GET | POST | PUT | DELETE | PATCH | HEAD | OPTIONS

datatype request_credentials = Omit | SameOrigin | Include

datatype placement = InHeader | InQuery

text \<open>\<open>CarrierAuthConfig\<close>: the tagged union over \<open>type\<close>.\<close>

datatype auth_config =
    Bearer string
  | Basic string string
  | ApiKey string string placement

datatype event =
    EvRequest | EvResponse | EvOk | EvError
  | EvGet | EvPost | EvPut | EvDelete | EvPatch

type_synonym headers = "string \<rightharpoonup> string"

text \<open>\<open>CarrierOptions\<close>, the argument of \<open>send\<close>.\<close>

record options =
  opt_method :: "http_method option"
  opt_url :: string
  opt_data :: "json option"
  opt_headers :: "headers option"
  opt_useToken :: "bool option"
  opt_credentials :: "request_credentials option"
  opt_auth :: "auth_config option"


text \<open>
  What the network primitive gives back: the status and the outcome of \<open>response.json()\<close>
  (\<open>None\<close> when the body is not valid JSON and the promise rejects).
\<close>

record response =
  resp_status :: int
  resp_json :: "json option"

text \<open>The arguments of \<open>fetch\<close>: the URL and the init object built by \<open>send\<close>.\<close>

record request =
  rq_url :: string
  rq_method :: http_method
  rq_headers :: headers
  rq_credentials :: request_credentials
  rq_body :: "json option"

text \<open>\<open>CarrierContainer\<close>, the response envelope.\<close>

record container =
  data :: json
  status :: int
  raw :: "response option"

text \<open>A registered callback is named by a number; what it does is given by the runtime below.\<close>

type_synonym cb_id = nat

text \<open>The fields of a \<open>Carrier\<close> instance.\<close>

record carrier =
  container :: container
  token :: "string option"
  baseUrl :: string
  globalAuth :: "auth_config option"
  hooks :: "event \<rightharpoonup> cb_id list"

text \<open>The instance together with \<open>localStorage\<close>, the only global the class writes.\<close>

record world =
  self :: carrier
  localStorage :: "string \<rightharpoonup> string"

text \<open>The value a hook is called with.\<close>

datatype hook_args =
    ArgOptions
  | ArgUrl string
  | ArgUrlData string "json option"
  | ArgResponse response

text \<open>
  A callback receives the options object of the running \<open>send\<close> by reference (event
  \<open>request\<close>) and can reach the client: it is a transformer of the pair of both that
  either returns or throws.
\<close>

type_synonym store = "options \<times> world"

datatype completion = Normal | Throw exn

text \<open>
  What the class takes from its surroundings: the host name of \<open>globalThis.location\<close>
  (\<open>None\<close> when there is no location), \<open>btoa\<close> (which throws on a character it cannot
  encode), \<open>fetch\<close> (\<open>Inl\<close> is a rejected promise) and the behaviour of each
  registered callback.
\<close>

record runtime =
  hostname :: "string option"
  btoa :: "string \<Rightarrow> exn + string"
  fetch :: "request \<Rightarrow> exn + response"
  callback :: "cb_id \<Rightarrow> hook_args \<Rightarrow> store \<Rightarrow> completion \<times> store"

text \<open>
  What a run of \<open>send\<close> does that an observer outside can see, in order: a callback
  was called for an event and returned or threw, or the network call was issued.
\<close>

datatype trace_event =
    Invoked event cb_id hook_args completion
  | Fetched request

type_synonym trace = "trace_event list"

section \<open>Primitives of the language\<close>

definition truthy :: "string option \<Rightarrow> bool" where
  "truthy x = (case x of None \<Rightarrow> False | Some s \<Rightarrow> s \<noteq> [])"

definition truthy_json :: "json option \<Rightarrow> bool" where
  "truthy_json x =
     (case x of
        None \<Rightarrow> False
      | Some JNull \<Rightarrow> False
      | Some (JBool b) \<Rightarrow> b
      | Some (JNum n) \<Rightarrow> n \<noteq> 0
      | Some (JStr s) \<Rightarrow> s \<noteq> []
      | Some _ \<Rightarrow> True)"

text \<open>\<open>x || ""\<close>, which is also the value of a truthy \<open>x\<close>.\<close>

definition or_empty :: "string option \<Rightarrow> string" where
  "or_empty x = (case x of None \<Rightarrow> [] | Some s \<Rightarrow> s)"

text \<open>\<open>x || {}\<close> on a value.\<close>

definition or_empty_object :: "json option \<Rightarrow> json" where
  "or_empty_object x = (case x of None \<Rightarrow> JObj [] | Some j \<Rightarrow> if truthy_json x then j else JObj [])"

text \<open>\<open>s.startsWith(p)\<close> is \<open>prefix p s\<close>; \<open>s.includes(sub)\<close> searches every position.\<close>

fun str_includes :: "string \<Rightarrow> string \<Rightarrow> bool" where
  "str_includes [] sub = (sub = [])"
| "str_includes (c # cs) sub = (prefix sub (c # cs) \<or> str_includes cs sub)"

text \<open>
  \<open>encodeURIComponent\<close>: every byte outside the unreserved set
  \<open>A-Z a-z 0-9 - _ . ! ~ * ' ( )\<close> becomes \<open>%XX\<close> in upper-case hexadecimal.
\<close>

definition unreserved :: "char \<Rightarrow> bool" where
  "unreserved c \<longleftrightarrow>
     c \<in> set (''ABCDEFGHIJKLMNOPQRSTUVWXYZabcdefghijklmnopqrstuvwxyz0123456789-_.!~*()'' @ [CHR 0x27])"

definition hexdigit :: "nat \<Rightarrow> char" where
  "hexdigit n = ''0123456789ABCDEF'' ! (n mod 16)"

definition percent :: "char \<Rightarrow> string" where
  "percent c = [CHR ''%'', hexdigit (of_char c div 16), hexdigit (of_char c)]"

definition encodeURIComponent :: "string \<Rightarrow> string" where
  "encodeURIComponent s = concat (map (\<lambda>c. if unreserved c then [c] else percent c) s)"

section \<open>Configuration\<close>


definition setToken :: "string \<Rightarrow> world \<Rightarrow> world" where
  "setToken t w =
     w\<lparr>self := (self w)\<lparr>token := Some t\<rparr>,
       localStorage := (localStorage w)(''token'' \<mapsto> t)\<rparr>"


definition configureBaseUrl :: "string \<Rightarrow> carrier \<Rightarrow> carrier" where
  "configureBaseUrl u this = this\<lparr>baseUrl := u\<rparr>"

definition configureToken :: "string \<Rightarrow> world \<Rightarrow> world" where
  "configureToken t w = setToken t w"

definition configureAuth :: "auth_config \<Rightarrow> carrier \<Rightarrow> carrier" where
  "configureAuth a this = this\<lparr>globalAuth := Some a\<rparr>"

section \<open>URL resolution\<close>

definition resolveUrl :: "carrier \<Rightarrow> string \<Rightarrow> string" where
  "resolveUrl this requestUrl =
     (let isAbsolute = (prefix ''http://'' requestUrl \<or> prefix ''https://'' requestUrl)
      in if isAbsolute then requestUrl else baseUrl this @ requestUrl)"

section \<open>Hooks\<close>

text \<open>\<open>this.hooks[event]\<close> read as a list: what \<open>trigger\<close> will call.\<close>

definition registered :: "carrier \<Rightarrow> event \<Rightarrow> cb_id list" where
  "registered this ev = (case hooks this ev of None \<Rightarrow> [] | Some cbs \<Rightarrow> cbs)"

definition on :: "event \<Rightarrow> cb_id \<Rightarrow> carrier \<Rightarrow> carrier" where
  "on ev cb this =
     this\<lparr>hooks := (hooks this)(ev \<mapsto> (case hooks this ev of None \<Rightarrow> [] | Some cbs \<Rightarrow> cbs) @ [cb])\<rparr>"

text \<open>
  \<open>Array.prototype.forEach\<close> over the callbacks of one event: each callback runs in the
  store its predecessors left, and the first one that throws ends the loop, since the
  arrow function \<open>(cb) => cb(...args)\<close> has no handler. The list is the array as it is
  when \<open>trigger\<close> starts: \<open>forEach\<close> fixes the range of indices before the first call
  and \<open>on\<close> only appends.
\<close>

fun forEach :: "runtime \<Rightarrow> event \<Rightarrow> hook_args \<Rightarrow> cb_id list \<Rightarrow> store \<Rightarrow> completion \<times> store \<times> trace" where
  "forEach rt ev args [] s = (Normal, s, [])"
| "forEach rt ev args (cb # cbs) s =
     (case callback rt cb args s of
        (Throw e, s') \<Rightarrow> (Throw e, s', [Invoked ev cb args (Throw e)])
      | (Normal, s') \<Rightarrow>
          (case forEach rt ev args cbs s' of
             (r, s'', tr) \<Rightarrow> (r, s'', Invoked ev cb args Normal # tr)))"

definition trigger :: "runtime \<Rightarrow> event \<Rightarrow> hook_args \<Rightarrow> store \<Rightarrow> completion \<times> store \<times> trace" where
  "trigger rt ev args s =
     (case hooks (self (snd s)) ev of
        None \<Rightarrow> (Normal, s, [])
      | Some cbs \<Rightarrow> forEach rt ev args cbs s)"

section \<open>Authentication\<close>

text \<open>
  \<open>applyAuth\<close> writes into the \<open>headers\<close> object it is given and returns the URL: the
  model returns both.
\<close>

definition applyAuth ::
  "runtime \<Rightarrow> carrier \<Rightarrow> headers \<Rightarrow> auth_config option \<Rightarrow> string option \<Rightarrow> exn + (string \<times> headers)" where
  "applyAuth rt this hdrs auth url =
     (case (case auth of Some a \<Rightarrow> Some a | None \<Rightarrow> globalAuth this) of
        None \<Rightarrow> Inr (or_empty url, hdrs)
      | Some chosen \<Rightarrow>
          (case chosen of
             Bearer t \<Rightarrow> Inr (or_empty url, hdrs(''Authorization'' \<mapsto> ''Bearer '' @ t))
           | Basic username password \<Rightarrow>
               (case btoa rt (username @ '':'' @ password) of
                  Inl e \<Rightarrow> Inl e
                | Inr encoded \<Rightarrow> Inr (or_empty url, hdrs(''Authorization'' \<mapsto> ''Basic '' @ encoded)))
           | ApiKey k v pl \<Rightarrow>
               (case pl of
                  InHeader \<Rightarrow> Inr (or_empty url, hdrs(k \<mapsto> v))
                | InQuery \<Rightarrow>
                    if truthy url
                    then
                      (let separator = (if str_includes (or_empty url) ''?'' then ''&'' else ''?'')
                       in Inr (or_empty url @ separator @ k @ ''='' @ encodeURIComponent v, hdrs))
                    else Inr (or_empty url, hdrs))))"

section \<open>The dispatcher\<close>

definition ok :: "carrier \<Rightarrow> bool" where
  "ok this \<longleftrightarrow> status (container this) \<ge> 200 \<and> status (container this) < 300"

definition check :: "carrier \<Rightarrow> bool" where
  "check this \<longleftrightarrow> ok this \<and> data (container this) \<noteq> JNull"

text \<open>The five conditional \<open>trigger\<close> calls on the method, of which at most one fires.\<close>

definition trigger_verb :: "runtime \<Rightarrow> http_method \<Rightarrow> store \<Rightarrow> completion \<times> store \<times> trace" where
  "trigger_verb rt m s =
     (case m of
        GET \<Rightarrow> trigger rt EvGet (ArgUrl (opt_url (fst s))) s
      | POST \<Rightarrow> trigger rt EvPost (ArgUrlData (opt_url (fst s)) (opt_data (fst s))) s
      | PUT \<Rightarrow> trigger rt EvPut (ArgUrlData (opt_url (fst s)) (opt_data (fst s))) s
      | DELETE \<Rightarrow> trigger rt EvDelete (ArgUrlData (opt_url (fst s)) (opt_data (fst s))) s
      | PATCH \<Rightarrow> trigger rt EvPatch (ArgUrlData (opt_url (fst s)) (opt_data (fst s))) s
      | _ \<Rightarrow> (Normal, s, []))"

text \<open>
  The two assignments to \<open>container.status\<close> and \<open>container.raw\<close> and the \<open>try\<close> around
  \<open>response.json()\<close>, whose \<open>catch\<close> stores \<open>null\<close>.
\<close>

definition record_response :: "response \<Rightarrow> world \<Rightarrow> world" where
  "record_response r w =
     w\<lparr>self := (self w)\<lparr>container :=
          \<lparr>data = (case resp_json r of Some j \<Rightarrow> j | None \<Rightarrow> JNull),
           status = resp_status r,
           raw = Some r\<rparr>\<rparr>\<rparr>"

text \<open>
  The headers \<open>send\<close> starts from: \<open>Content-Type\<close> for every method but \<open>GET\<close>, the
  caller's headers spread over it, and the implicit bearer token when it is not switched
  off, a token is set and no \<open>Authorization\<close> header is there yet.
\<close>

definition build_headers :: "carrier \<Rightarrow> options \<Rightarrow> http_method \<Rightarrow> headers" where
  "build_headers this opts method =
     (let userHeaders = (case opt_headers opts of None \<Rightarrow> Map.empty | Some h \<Rightarrow> h);
          hdrs = (if method \<noteq> GET then [''Content-Type'' \<mapsto> ''application/json''] else Map.empty)
                   ++ userHeaders
      in if opt_useToken opts \<noteq> Some False \<and> truthy (token this) \<and> \<not> truthy (hdrs ''Authorization'')
         then hdrs(''Authorization'' \<mapsto> ''Bearer '' @ or_empty (token this))
         else hdrs)"

text \<open>
  The URL and the init object passed to \<open>fetch\<close>. The body is the value handed to
  \<open>JSON.stringify\<close>: \<open>options.data || {}\<close> for every method but \<open>GET\<close> and \<open>HEAD\<close>.
\<close>

definition fetch_init :: "string \<Rightarrow> http_method \<Rightarrow> headers \<Rightarrow> options \<Rightarrow> request" where
  "fetch_init fullUrl method hdrs opts =
     \<lparr>rq_url = fullUrl,
      rq_method = method,
      rq_headers = hdrs,
      rq_credentials = (case opt_credentials opts of None \<Rightarrow> SameOrigin | Some c \<Rightarrow> c),
      rq_body =
        (if method \<noteq> GET \<and> method \<noteq> HEAD
         then Some (or_empty_object (opt_data opts))
         else None)\<rparr>"

text \<open>
  \<open>send\<close>, in the order of the source. An exception leaves the method at the point where
  it is thrown (the promise rejects); the world is the one reached there. The result
  \<open>this\<close> is the \<open>self\<close> of the final world. The method and the headers are computed
  before the first hook runs; the URL, the data, the credentials mode and the
  per-request auth are read from the options object after the hooks have seen it. The
  two \<open>await\<close>s are taken as atomic: one call is followed alone.
\<close>

definition method_of :: "options \<Rightarrow> http_method" where
  "method_of opts = (case opt_method opts of None \<Rightarrow> GET | Some m \<Rightarrow> m)"

definition send :: "runtime \<Rightarrow> options \<Rightarrow> world \<Rightarrow> completion \<times> world \<times> trace" where
  "send rt opts w =
     (let method = method_of opts;
          hdrs = build_headers (self w) opts method
      in
      case trigger rt EvRequest ArgOptions (opts, w) of
        (Throw e, s1, tr1) \<Rightarrow> (Throw e, snd s1, tr1)
      | (Normal, s1, tr1) \<Rightarrow>
      (case trigger_verb rt method s1 of
        (Throw e, s2, tr2) \<Rightarrow> (Throw e, snd s2, tr1 @ tr2)
      | (Normal, s2, tr2) \<Rightarrow>
      (let fullUrl = resolveUrl (self (snd s2)) (opt_url (fst s2)) in
       case applyAuth rt (self (snd s2)) hdrs (opt_auth (fst s2)) (Some fullUrl) of
        Inl e \<Rightarrow> (Throw e, snd s2, tr1 @ tr2)
      | Inr (fullUrl', hdrs') \<Rightarrow>
      (let rq = fetch_init fullUrl' method hdrs' (fst s2) in
       case fetch rt rq of
        Inl e \<Rightarrow> (Throw e, snd s2, tr1 @ tr2 @ [Fetched rq])
      | Inr resp \<Rightarrow>
      (let s3 = (fst s2, record_response resp (snd s2)) in
       case trigger rt EvResponse (ArgResponse resp) s3 of
        (Throw e, s4, tr4) \<Rightarrow> (Throw e, snd s4, tr1 @ tr2 @ [Fetched rq] @ tr4)
      | (Normal, s4, tr4) \<Rightarrow>
      (case trigger rt (if ok (self (snd s4)) then EvOk else EvError) (ArgResponse resp) s4 of
        (r, s5, tr5) \<Rightarrow> (r, snd s5, tr1 @ tr2 @ [Fetched rq] @ tr4 @ tr5)))))))"

section \<open>Notions used in the statements\<close>

text \<open>The trace of an event whose callbacks all returned: one entry each, in registration order.\<close>

definition fired :: "event \<Rightarrow> hook_args \<Rightarrow> carrier \<Rightarrow> trace" where
  "fired ev args this = map (\<lambda>cb. Invoked ev cb args Normal) (registered this ev)"

definition fired_verb :: "http_method \<Rightarrow> store \<Rightarrow> trace" where
  "fired_verb m s =
     (case m of
        GET \<Rightarrow> fired EvGet (ArgUrl (opt_url (fst s))) (self (snd s))
      | POST \<Rightarrow> fired EvPost (ArgUrlData (opt_url (fst s)) (opt_data (fst s))) (self (snd s))
      | PUT \<Rightarrow> fired EvPut (ArgUrlData (opt_url (fst s)) (opt_data (fst s))) (self (snd s))
      | DELETE \<Rightarrow> fired EvDelete (ArgUrlData (opt_url (fst s)) (opt_data (fst s))) (self (snd s))
      | PATCH \<Rightarrow> fired EvPatch (ArgUrlData (opt_url (fst s)) (opt_data (fst s))) (self (snd s))
      | _ \<Rightarrow> [])"

text \<open>No callback registered on the client writes a field of the client, whatever it is called with.\<close>

definition hooks_leave_client :: "runtime \<Rightarrow> carrier \<Rightarrow> bool" where
  "hooks_leave_client rt this \<longleftrightarrow>
     (\<forall>ev. \<forall>cb \<in> set (registered this ev). \<forall>args s.
        self (snd (snd (callback rt cb args s))) = self (snd s))"

text \<open>A trace entry of a callback that threw; a trace without one; a trace that stops at the first one.\<close>

definition throwing :: "trace_event \<Rightarrow> bool" where
  "throwing x = (case x of Invoked _ _ _ (Throw _) \<Rightarrow> True | _ \<Rightarrow> False)"

definition quiet :: "trace \<Rightarrow> bool" where
  "quiet tr \<longleftrightarrow> (\<forall>x \<in> set tr. \<not> throwing x)"

definition ends_at_throw :: "completion \<Rightarrow> trace \<Rightarrow> bool" where
  "ends_at_throw r tr \<longleftrightarrow>
     quiet tr \<or> (\<exists>q ev cb a e. r = Throw e \<and> tr = q @ [Invoked ev cb a (Throw e)] \<and> quiet q)"

section \<open>Example clients\<close>

text \<open>The instance as the field initialisers of the class leave it.\<close>

definition new_Carrier :: carrier where
  "new_Carrier =
     \<lparr>container = \<lparr>data = JNull, status = 0, raw = None\<rparr>,
      token = None, baseUrl = [], globalAuth = None, hooks = Map.empty\<rparr>"


definition created :: response where
  "created = \<lparr>resp_status = 201, resp_json = Some (JObj [(''id'', JNum 7)])\<rparr>"

definition no_content :: response where
  "no_content = \<lparr>resp_status = 204, resp_json = None\<rparr>"

definition not_found :: response where
  "not_found = \<lparr>resp_status = 404, resp_json = None\<rparr>"

text \<open>
  A page served from \<open>localhost\<close> whose server answers every \<open>POST\<close> with \<open>201\<close> and a JSON
  body, every \<open>DELETE\<close> with \<open>204\<close> and no body, and everything else with \<open>404\<close> and a
  body that is not JSON. Callback \<open>0\<close> throws; every other callback returns and changes
  nothing. \<open>btoa\<close> is not reached in the runs below.
\<close>

definition browser :: runtime where
  "browser =
     \<lparr>hostname = Some ''localhost'',
      btoa = (\<lambda>s. Inl (Error ''btoa'')),
      fetch = (\<lambda>rq. if rq_method rq = POST then Inr created
                   else if rq_method rq = DELETE then Inr no_content
                   else Inr not_found),
      callback = (\<lambda>cb args s. if cb = 0 then (Throw (Error ''boom''), s) else (Normal, s))\<rparr>"

definition observed :: world where
  "observed =
     \<lparr>self = new_Carrier
        \<lparr>baseUrl := ''http://localhost:8080'',
         hooks := [EvRequest \<mapsto> [1, 2], EvPost \<mapsto> [3], EvResponse \<mapsto> [4],
                   EvOk \<mapsto> [5], EvError \<mapsto> [6]]\<rparr>,
      localStorage = Map.empty\<rparr>"

definition fragile :: world where
  "fragile =
     \<lparr>self = new_Carrier\<lparr>baseUrl := ''http://localhost:8080'', hooks := [EvRequest \<mapsto> [0, 1]]\<rparr>,
      localStorage = Map.empty\<rparr>"

definition with_global_bearer :: world where
  "with_global_bearer =
     \<lparr>self = configureAuth (Bearer ''G'') (new_Carrier\<lparr>baseUrl := ''http://localhost:8080''\<rparr>),
      localStorage = Map.empty\<rparr>"

definition post_user :: options where
  "post_user =
     \<lparr>opt_method = Some POST, opt_url = ''/users'', opt_data = Some (JObj [(''name'', JStr ''ada'')]),
      opt_headers = None, opt_useToken = None, opt_credentials = None, opt_auth = None\<rparr>"

definition get_user :: options where
  "get_user =
     \<lparr>opt_method = None, opt_url = ''/users/7'', opt_data = None,
      opt_headers = None, opt_useToken = None, opt_credentials = None, opt_auth = None\<rparr>"


definition get_me_custom :: options where
  "get_me_custom =
     \<lparr>opt_method = None, opt_url = ''/me'', opt_data = None,
      opt_headers = Some [''Authorization'' \<mapsto> ''Custom abc''],
      opt_useToken = None, opt_credentials = None, opt_auth = None\<rparr>"

definition post_user_request :: request where
  "post_user_request =
     \<lparr>rq_url = ''http://localhost:8080/users'', rq_method = POST,
      rq_headers = [''Content-Type'' \<mapsto> ''application/json''],
      rq_credentials = SameOrigin, rq_body = Some (JObj [(''name'', JStr ''ada'')])\<rparr>"

definition post_user_trace :: trace where
  "post_user_trace =
     [Invoked EvRequest 1 ArgOptions Normal,
      Invoked EvRequest 2 ArgOptions Normal,
      Invoked EvPost 3 (ArgUrlData ''/users'' (Some (JObj [(''name'', JStr ''ada'')]))) Normal,
      Fetched post_user_request,
      Invoked EvResponse 4 (ArgResponse created) Normal,
      Invoked EvOk 5 (ArgResponse created) Normal]"

definition get_user_request :: request where
  "get_user_request =
     \<lparr>rq_url = ''http://localhost:8080/users/7'', rq_method = GET, rq_headers = Map.empty,
      rq_credentials = SameOrigin, rq_body = None\<rparr>"

definition get_user_trace :: trace where
  "get_user_trace =
     [Invoked EvRequest 1 ArgOptions Normal,
      Invoked EvRequest 2 ArgOptions Normal,
      Fetched get_user_request,
      Invoked EvResponse 4 (ArgResponse not_found) Normal,
      Invoked EvError 6 (ArgResponse not_found) Normal]"



definition get_me_request :: request where
  "get_me_request =
     \<lparr>rq_url = ''http://localhost:8080/me'', rq_method = GET,
      rq_headers = [''Authorization'' \<mapsto> ''Bearer G''],
      rq_credentials = SameOrigin, rq_body = None\<rparr>"




section \<open>Strings\<close>



lemma encodeURIComponent_append:
  "encodeURIComponent (a @ b) = encodeURIComponent a @ encodeURIComponent b"
  by (simp add: encodeURIComponent_def)


lemma encodeURIComponent_example: "encodeURIComponent ''a b&c=d/e'' = ''a%20b%26c%3Dd%2Fe''"
  by (simp add: encodeURIComponent_def unreserved_def percent_def hexdigit_def)

section \<open>URL resolution\<close>

text \<open>
  Claim C5. A path that starts with \<open>http://\<close> or \<open>https://\<close> is returned as it is,
  whatever the base URL of the client, so resolving it again (on any client) changes
  nothing; every other path is appended to the base URL character for character.
\<close>

theorem resolveUrl_absolute_or_relative:
  "(prefix ''http://'' p \<or> prefix ''https://'' p \<longrightarrow>
      resolveUrl this p = p \<and> resolveUrl other (resolveUrl this p) = resolveUrl this p)
   \<and> (\<not> (prefix ''http://'' p \<or> prefix ''https://'' p) \<longrightarrow>
      resolveUrl this p = baseUrl this @ p)"
  by (simp add: resolveUrl_def)

theorem resolveUrl_absolute_or_relative_witness:
  "prefix ''https://'' ''https://api.example.com/v1''
   \<and> resolveUrl (self observed) ''https://api.example.com/v1'' = ''https://api.example.com/v1''
   \<and> resolveUrl new_Carrier (resolveUrl (self observed) ''https://api.example.com/v1'')
        = resolveUrl (self observed) ''https://api.example.com/v1''
   \<and> \<not> (prefix ''http://'' ''//users'' \<or> prefix ''https://'' ''//users'')
   \<and> resolveUrl (self observed) ''//users'' = ''http://localhost:8080//users''"
  using resolveUrl_absolute_or_relative [of "''https://api.example.com/v1''" "self observed" new_Carrier]
    resolveUrl_absolute_or_relative [of "''//users''" "self observed" new_Carrier]
  by (simp add: resolveUrl_def observed_def new_Carrier_def)

section \<open>Authentication\<close>






section \<open>Configuration\<close>







section \<open>Hooks\<close>

subsection \<open>What a run of the loop leaves in the trace\<close>

lemma forEach_Normal:
  "forEach rt ev a cbs s = (Normal, s', tr) \<Longrightarrow> tr = map (\<lambda>cb. Invoked ev cb a Normal) cbs"
  by (induction cbs arbitrary: s tr) (auto split: prod.splits completion.splits)

text \<open>
  When the loop throws, the callbacks before the one that threw have returned and the
  ones after it have not been called.
\<close>

lemma forEach_Throw:
  "forEach rt ev a cbs s = (Throw e, s', tr) \<Longrightarrow>
     \<exists>pre cb post s0. cbs = pre @ cb # post
        \<and> tr = map (\<lambda>c. Invoked ev c a Normal) pre @ [Invoked ev cb a (Throw e)]
        \<and> callback rt cb a s0 = (Throw e, s')"
proof (induction cbs arbitrary: s tr)
  case Nil
  then show ?case by simp
next
  case (Cons c cbs)
  obtain r s1 where first: "callback rt c a s = (r, s1)" by (metis surj_pair)
  show ?case
  proof (cases r)
    case Normal
    with first Cons.prems obtain tr' where rest: "forEach rt ev a cbs s1 = (Throw e, s', tr')"
      and tr: "tr = Invoked ev c a Normal # tr'"
      by (auto split: prod.splits)
    from Cons.IH [OF rest] obtain pre cb post s0 where
      "cbs = pre @ cb # post"
      "tr' = map (\<lambda>c. Invoked ev c a Normal) pre @ [Invoked ev cb a (Throw e)]"
      "callback rt cb a s0 = (Throw e, s')" by blast
    with tr have "c # cbs = (c # pre) @ cb # post
        \<and> tr = map (\<lambda>c. Invoked ev c a Normal) (c # pre) @ [Invoked ev cb a (Throw e)]
        \<and> callback rt cb a s0 = (Throw e, s')" by simp
    then show ?thesis by blast
  next
    case (Throw e')
    with first Cons.prems have "e' = e" "s1 = s'" "tr = [Invoked ev c a (Throw e)]" by auto
    with first Throw have "c # cbs = [] @ c # cbs
        \<and> tr = map (\<lambda>c. Invoked ev c a Normal) [] @ [Invoked ev c a (Throw e)]
        \<and> callback rt c a s = (Throw e, s')" by simp
    then show ?thesis by blast
  qed
qed

lemma trigger_Normal_fired:
  "trigger rt ev a s = (Normal, s', tr) \<Longrightarrow> tr = fired ev a (self (snd s))"
  by (auto simp: trigger_def fired_def registered_def split: option.splits dest: forEach_Normal)

lemma trigger_verb_Normal_fired:
  "trigger_verb rt m s = (Normal, s', tr) \<Longrightarrow> tr = fired_verb m s"
  by (cases m) (auto simp: trigger_verb_def fired_verb_def dest: trigger_Normal_fired)

lemma trigger_Throw:
  assumes "trigger rt ev a s = (Throw e, s', tr)"
  shows "\<exists>pre cb post s0. registered (self (snd s)) ev = pre @ cb # post
        \<and> tr = map (\<lambda>c. Invoked ev c a Normal) pre @ [Invoked ev cb a (Throw e)]
        \<and> callback rt cb a s0 = (Throw e, s')"
proof (cases "hooks (self (snd s)) ev")
  case None
  with assms show ?thesis by (simp add: trigger_def)
next
  case (Some cbs)
  with assms have "forEach rt ev a cbs s = (Throw e, s', tr)" by (simp add: trigger_def)
  from forEach_Throw [OF this] Some show ?thesis by (simp add: registered_def)
qed

lemma registered_record_response:
  "registered (self (record_response r w)) ev = registered (self w) ev"
  by (simp add: registered_def record_response_def)

lemma fired_record_response:
  "fired ev a (self (record_response r w)) = fired ev a (self w)"
  by (simp add: fired_def registered_record_response)

subsection \<open>Traces that stop at the first exception\<close>

lemma quiet_Nil: "quiet []"
  by (simp add: quiet_def)

lemma quiet_Cons: "quiet (x # tr) \<longleftrightarrow> \<not> throwing x \<and> quiet tr"
  by (auto simp: quiet_def)

lemma quiet_append: "quiet (tr @ tr') \<longleftrightarrow> quiet tr \<and> quiet tr'"
  by (auto simp: quiet_def)

lemma throwing_Throw: "throwing (Invoked ev cb a (Throw e))"
  by (simp add: throwing_def)

lemma throwing_Normal: "\<not> throwing (Invoked ev cb a Normal)"
  by (simp add: throwing_def)

lemma throwing_Fetched: "\<not> throwing (Fetched rq)"
  by (simp add: throwing_def)

lemmas quiet_simps = quiet_Nil quiet_Cons quiet_append throwing_Throw throwing_Normal throwing_Fetched

lemma quiet_map_Normal: "quiet (map (\<lambda>cb. Invoked ev cb a Normal) cbs)"
  by (induction cbs) (simp_all add: quiet_simps)

lemma quiet_fired: "quiet (fired ev a this)"
  by (simp add: fired_def quiet_map_Normal)

lemma quiet_ends: "quiet tr \<Longrightarrow> ends_at_throw r tr"
  by (simp add: ends_at_throw_def)

lemma trigger_quiet: "trigger rt ev a s = (Normal, s', tr) \<Longrightarrow> quiet tr"
  using trigger_Normal_fired [of rt ev a s s' tr] by (simp add: quiet_fired)

lemma trigger_ends:
  assumes "trigger rt ev a s = (r, s', tr)"
  shows "ends_at_throw r tr"
proof (cases r)
  case Normal
  with assms show ?thesis by (simp add: trigger_quiet quiet_ends)
next
  case (Throw e)
  with assms trigger_Throw [of rt ev a s e s' tr]
  obtain pre cb where "tr = map (\<lambda>c. Invoked ev c a Normal) pre @ [Invoked ev cb a (Throw e)]"
    by blast
  moreover have "quiet (map (\<lambda>c. Invoked ev c a Normal) pre)" by (rule quiet_map_Normal)
  ultimately show ?thesis unfolding ends_at_throw_def using Throw by blast
qed

lemma trigger_verb_quiet: "trigger_verb rt m s = (Normal, s', tr) \<Longrightarrow> quiet tr"
  using trigger_verb_Normal_fired [of rt m s s' tr]
  by (cases m) (simp_all add: fired_verb_def quiet_fired quiet_Nil)

lemma trigger_verb_ends:
  assumes "trigger_verb rt m s = (r, s', tr)"
  shows "ends_at_throw r tr"
proof (cases m)
  case HEAD
  with assms show ?thesis by (simp add: trigger_verb_def quiet_ends quiet_Nil)
next
  case OPTIONS
  with assms show ?thesis by (simp add: trigger_verb_def quiet_ends quiet_Nil)
qed (use assms in \<open>auto simp: trigger_verb_def dest: trigger_ends\<close>)

lemma ends_at_throw_append:
  assumes "quiet p" and "ends_at_throw r tr"
  shows "ends_at_throw r (p @ tr)"
proof -
  from assms(2) consider "quiet tr"
    | q ev cb a e where "r = Throw e" "tr = q @ [Invoked ev cb a (Throw e)]" "quiet q"
    unfolding ends_at_throw_def by blast
  then show ?thesis
  proof cases
    case 1
    with assms(1) show ?thesis by (simp add: quiet_ends quiet_append)
  next
    case 2
    then have "p @ tr = (p @ q) @ [Invoked ev cb a (Throw e)]" "quiet (p @ q)"
      using assms(1) by (simp_all add: quiet_append)
    with 2(1) show ?thesis unfolding ends_at_throw_def by blast
  qed
qed

subsection \<open>Callbacks that leave the client alone\<close>

lemma forEach_leave:
  "(\<forall>cb \<in> set cbs. \<forall>args s. self (snd (snd (callback rt cb args s))) = self (snd s)) \<Longrightarrow>
   forEach rt ev a cbs s = (r, s', tr) \<Longrightarrow> self (snd s') = self (snd s)"
proof (induction cbs arbitrary: s r tr s')
  case Nil
  then show ?case by simp
next
  case (Cons c cbs)
  obtain r1 s1 where first: "callback rt c a s = (r1, s1)" by (metis surj_pair)
  from Cons.prems(1) have "self (snd (snd (callback rt c a s))) = self (snd s)"
    by (simp del: split_paired_All)
  with first have s1: "self (snd s1) = self (snd s)" by simp
  show ?case
  proof (cases r1)
    case Normal
    obtain r2 s2 tr2 where rest: "forEach rt ev a cbs s1 = (r2, s2, tr2)" by (rule prod_cases3)
    from Cons.prems(1)
    have "\<forall>cb \<in> set cbs. \<forall>args s. self (snd (snd (callback rt cb args s))) = self (snd s)"
      by simp
    from Cons.IH [OF this rest] have "self (snd s2) = self (snd s1)" .
    moreover from Cons.prems(2) first Normal rest have "s' = s2" by simp
    ultimately show ?thesis using s1 by simp
  next
    case (Throw e)
    with Cons.prems(2) first have "s' = s1" by simp
    with s1 show ?thesis by simp
  qed
qed

lemma trigger_leave:
  assumes "hooks_leave_client rt (self (snd s))" and "trigger rt ev a s = (r, s', tr)"
  shows "self (snd s') = self (snd s)"
proof (cases "hooks (self (snd s)) ev")
  case None
  with assms(2) show ?thesis by (simp add: trigger_def)
next
  case (Some cbs)
  then have "registered (self (snd s)) ev = cbs" by (simp add: registered_def)
  with assms(1)
  have "\<forall>cb \<in> set cbs. \<forall>args s. self (snd (snd (callback rt cb args s))) = self (snd s)"
    unfolding hooks_leave_client_def by blast
  moreover from assms(2) Some have "forEach rt ev a cbs s = (r, s', tr)" by (simp add: trigger_def)
  ultimately show ?thesis by (rule forEach_leave)
qed

lemma trigger_verb_leave:
  "hooks_leave_client rt (self (snd s)) \<Longrightarrow> trigger_verb rt m s = (r, s', tr) \<Longrightarrow>
   self (snd s') = self (snd s)"
  by (cases m) (auto simp: trigger_verb_def dest: trigger_leave)

lemma record_response_leave:
  "hooks_leave_client rt (self w) \<Longrightarrow> hooks_leave_client rt (self (record_response resp w))"
  by (simp add: hooks_leave_client_def registered_record_response)

lemma self_record_response:
  "self (record_response r w) =
     (self w)\<lparr>container :=
        \<lparr>data = (case resp_json r of Some j \<Rightarrow> j | None \<Rightarrow> JNull),
         status = resp_status r, raw = Some r\<rparr>\<rparr>"
  by (simp add: record_response_def)

lemma pre_hooks_leave:
  assumes "hooks_leave_client rt (self w)"
    and "trigger rt EvRequest ArgOptions (opts, w) = (r1, s1, tr1)"
    and "trigger_verb rt m s1 = (r2, s2, tr2)"
  shows "self (snd s1) = self w" and "self (snd s2) = self w"
proof -
  from assms(1) have "hooks_leave_client rt (self (snd (opts, w)))" by simp
  from trigger_leave [OF this assms(2)] show 1: "self (snd s1) = self w" by simp
  with assms(1) have "hooks_leave_client rt (self (snd s1))" by simp
  from trigger_verb_leave [OF this assms(3)] 1 show "self (snd s2) = self w" by simp
qed

lemma post_hooks_leave:
  assumes "hooks_leave_client rt (self (snd s3))"
    and "trigger rt ev a s3 = (r4, s4, tr4)"
    and "trigger rt ev' a' s4 = (r5, s5, tr5)"
  shows "self (snd s4) = self (snd s3)" and "self (snd s5) = self (snd s3)"
proof -
  from trigger_leave [OF assms(1,2)] show 4: "self (snd s4) = self (snd s3)" .
  with assms(1) have "hooks_leave_client rt (self (snd s4))" by simp
  from trigger_leave [OF this assms(3)] 4 show "self (snd s5) = self (snd s3)" by simp
qed

section \<open>The dispatcher\<close>

text \<open>The six ways through \<open>send\<close>: five places where it can throw, and the end.\<close>

lemma send_cases:
  obtains
    (ThrowRequest) e s1 tr1 where
      "trigger rt EvRequest ArgOptions (opts, w) = (Throw e, s1, tr1)"
      "send rt opts w = (Throw e, snd s1, tr1)"
  | (ThrowVerb) s1 tr1 e s2 tr2 where
      "trigger rt EvRequest ArgOptions (opts, w) = (Normal, s1, tr1)"
      "trigger_verb rt (method_of opts) s1 = (Throw e, s2, tr2)"
      "send rt opts w = (Throw e, snd s2, tr1 @ tr2)"
  | (ThrowAuth) s1 tr1 s2 tr2 e where
      "trigger rt EvRequest ArgOptions (opts, w) = (Normal, s1, tr1)"
      "trigger_verb rt (method_of opts) s1 = (Normal, s2, tr2)"
      "applyAuth rt (self (snd s2)) (build_headers (self w) opts (method_of opts)) (opt_auth (fst s2))
         (Some (resolveUrl (self (snd s2)) (opt_url (fst s2)))) = Inl e"
      "send rt opts w = (Throw e, snd s2, tr1 @ tr2)"
  | (ThrowFetch) s1 tr1 s2 tr2 u h e where
      "trigger rt EvRequest ArgOptions (opts, w) = (Normal, s1, tr1)"
      "trigger_verb rt (method_of opts) s1 = (Normal, s2, tr2)"
      "applyAuth rt (self (snd s2)) (build_headers (self w) opts (method_of opts)) (opt_auth (fst s2))
         (Some (resolveUrl (self (snd s2)) (opt_url (fst s2)))) = Inr (u, h)"
      "fetch rt (fetch_init u (method_of opts) h (fst s2)) = Inl e"
      "send rt opts w
         = (Throw e, snd s2, tr1 @ tr2 @ [Fetched (fetch_init u (method_of opts) h (fst s2))])"
  | (ThrowResponse) s1 tr1 s2 tr2 u h resp e s4 tr4 where
      "trigger rt EvRequest ArgOptions (opts, w) = (Normal, s1, tr1)"
      "trigger_verb rt (method_of opts) s1 = (Normal, s2, tr2)"
      "applyAuth rt (self (snd s2)) (build_headers (self w) opts (method_of opts)) (opt_auth (fst s2))
         (Some (resolveUrl (self (snd s2)) (opt_url (fst s2)))) = Inr (u, h)"
      "fetch rt (fetch_init u (method_of opts) h (fst s2)) = Inr resp"
      "trigger rt EvResponse (ArgResponse resp) (fst s2, record_response resp (snd s2))
         = (Throw e, s4, tr4)"
      "send rt opts w
         = (Throw e, snd s4, tr1 @ tr2 @ [Fetched (fetch_init u (method_of opts) h (fst s2))] @ tr4)"
  | (Finished) s1 tr1 s2 tr2 u h resp s4 tr4 r s5 tr5 where
      "trigger rt EvRequest ArgOptions (opts, w) = (Normal, s1, tr1)"
      "trigger_verb rt (method_of opts) s1 = (Normal, s2, tr2)"
      "applyAuth rt (self (snd s2)) (build_headers (self w) opts (method_of opts)) (opt_auth (fst s2))
         (Some (resolveUrl (self (snd s2)) (opt_url (fst s2)))) = Inr (u, h)"
      "fetch rt (fetch_init u (method_of opts) h (fst s2)) = Inr resp"
      "trigger rt EvResponse (ArgResponse resp) (fst s2, record_response resp (snd s2))
         = (Normal, s4, tr4)"
      "trigger rt (if ok (self (snd s4)) then EvOk else EvError) (ArgResponse resp) s4 = (r, s5, tr5)"
      "send rt opts w
         = (r, snd s5, tr1 @ tr2 @ [Fetched (fetch_init u (method_of opts) h (fst s2))] @ tr4 @ tr5)"
proof -
  obtain r1 s1 tr1 where t1: "trigger rt EvRequest ArgOptions (opts, w) = (r1, s1, tr1)"
    by (rule prod_cases3)
  show thesis
  proof (cases r1)
    case (Throw e)
    with t1 show thesis by (intro ThrowRequest [of e s1 tr1]) (simp_all add: send_def)
  next
    case Normal
    note n1 = t1 [unfolded Normal]
    obtain r2 s2 tr2 where t2: "trigger_verb rt (method_of opts) s1 = (r2, s2, tr2)"
      by (rule prod_cases3)
    show thesis
    proof (cases r2)
      case (Throw e)
      with n1 t2 show thesis
        by (intro ThrowVerb [of s1 tr1 e s2 tr2]) (simp_all add: send_def)
    next
      case Normal
      note n2 = t2 [unfolded Normal]
      show thesis
      proof (cases "applyAuth rt (self (snd s2)) (build_headers (self w) opts (method_of opts))
                      (opt_auth (fst s2)) (Some (resolveUrl (self (snd s2)) (opt_url (fst s2))))")
        case (Inl e)
        with n1 n2 show thesis
          by (intro ThrowAuth [of s1 tr1 s2 tr2 e]) (simp_all add: send_def)
      next
        case (Inr uh)
        obtain u h where uh: "uh = (u, h)" by (cases uh)
        note a = Inr [unfolded uh]
        show thesis
        proof (cases "fetch rt (fetch_init u (method_of opts) h (fst s2))")
          case (Inl e)
          with n1 n2 a show thesis
            by (intro ThrowFetch [of s1 tr1 s2 tr2 u h e]) (simp_all add: send_def)
        next
          case (Inr resp)
          note f = Inr
          obtain r4 s4 tr4 where t4:
            "trigger rt EvResponse (ArgResponse resp) (fst s2, record_response resp (snd s2))
               = (r4, s4, tr4)"
            by (rule prod_cases3)
          show thesis
          proof (cases r4)
            case (Throw e)
            with n1 n2 a f t4 show thesis
              by (intro ThrowResponse [of s1 tr1 s2 tr2 u h resp e s4 tr4]) (simp_all add: send_def)
          next
            case Normal
            note n4 = t4 [unfolded Normal]
            obtain r s5 tr5 where t5:
              "trigger rt (if ok (self (snd s4)) then EvOk else EvError) (ArgResponse resp) s4
                 = (r, s5, tr5)"
              by (rule prod_cases3)
            with n1 n2 a f n4 show thesis
              by (intro Finished [of s1 tr1 s2 tr2 u h resp s4 tr4 r s5 tr5]) (simp_all add: send_def)
          qed
        qed
      qed
    qed
  qed
qed

lemma send_ends:
  assumes s: "send rt opts w = (r, w', tr)"
  shows "ends_at_throw r tr"
proof (cases rule: send_cases [of rt opts w])
  case (ThrowRequest e s1 tr1)
  from s ThrowRequest(2) have "r = Throw e" "tr = tr1" by simp_all
  with trigger_ends [OF ThrowRequest(1)] show ?thesis by simp
next
  case (ThrowVerb s1 tr1 e s2 tr2)
  from s ThrowVerb(3) have "r = Throw e" "tr = tr1 @ tr2" by simp_all
  with ends_at_throw_append [OF trigger_quiet [OF ThrowVerb(1)] trigger_verb_ends [OF ThrowVerb(2)]]
  show ?thesis by simp
next
  case (ThrowAuth s1 tr1 s2 tr2 e)
  from s ThrowAuth(4) have "tr = tr1 @ tr2" by simp
  with trigger_quiet [OF ThrowAuth(1)] trigger_verb_quiet [OF ThrowAuth(2)] show ?thesis
    by (simp add: quiet_ends quiet_simps)
next
  case (ThrowFetch s1 tr1 s2 tr2 u h e)
  from s ThrowFetch(5)
  have "tr = tr1 @ tr2 @ [Fetched (fetch_init u (method_of opts) h (fst s2))]" by simp
  with trigger_quiet [OF ThrowFetch(1)] trigger_verb_quiet [OF ThrowFetch(2)] show ?thesis
    by (simp add: quiet_ends quiet_simps)
next
  case (ThrowResponse s1 tr1 s2 tr2 u h resp e s4 tr4)
  from s ThrowResponse(6) have r: "r = Throw e"
    and tr: "tr = (tr1 @ tr2 @ [Fetched (fetch_init u (method_of opts) h (fst s2))]) @ tr4"
    by simp_all
  have "quiet (tr1 @ tr2 @ [Fetched (fetch_init u (method_of opts) h (fst s2))])"
    using trigger_quiet [OF ThrowResponse(1)] trigger_verb_quiet [OF ThrowResponse(2)]
    by (simp add: quiet_simps)
  from ends_at_throw_append [OF this trigger_ends [OF ThrowResponse(5)]] r tr show ?thesis by simp
next
  case (Finished s1 tr1 s2 tr2 u h resp s4 tr4 r' s5 tr5)
  from s Finished(7) have r: "r = r'"
    and tr: "tr = (tr1 @ tr2 @ [Fetched (fetch_init u (method_of opts) h (fst s2))] @ tr4) @ tr5"
    by simp_all
  have "quiet (tr1 @ tr2 @ [Fetched (fetch_init u (method_of opts) h (fst s2))] @ tr4)"
    using trigger_quiet [OF Finished(1)] trigger_verb_quiet [OF Finished(2)]
      trigger_quiet [OF Finished(5)]
    by (simp add: quiet_simps)
  from ends_at_throw_append [OF this trigger_ends [OF Finished(6)]] r tr show ?thesis by simp
qed

subsection \<open>The runs of the example clients\<close>

lemmas run_defs =
  send_def trigger_def trigger_verb_def method_of_def build_headers_def fetch_init_def
  applyAuth_def resolveUrl_def record_response_def ok_def truthy_def truthy_json_def or_empty_def
  or_empty_object_def

lemma send_post_user:
  "send browser post_user observed = (Normal, record_response created observed, post_user_trace)"
  by (simp add: run_defs browser_def observed_def post_user_def new_Carrier_def created_def
      post_user_trace_def post_user_request_def)

lemma send_get_user:
  "send browser get_user observed = (Normal, record_response not_found observed, get_user_trace)"
  by (simp add: run_defs browser_def observed_def get_user_def new_Carrier_def not_found_def
      get_user_trace_def get_user_request_def)


lemma send_fragile:
  "send browser get_user fragile
     = (Throw (Error ''boom''), fragile, [Invoked EvRequest 0 ArgOptions (Throw (Error ''boom''))])"
  by (simp add: run_defs browser_def fragile_def get_user_def new_Carrier_def)

lemma hooks_leave_client_observed: "hooks_leave_client browser (self observed)"
  by (simp add: hooks_leave_client_def browser_def)

subsection \<open>Order of the hooks\<close>



text \<open>
  The same order when no registered callback writes to the client: every event then
  reads the registry the call started with, and the status is the one of the response.
\<close>

lemma send_hook_order_unchanged_client:
  assumes "hooks_leave_client rt (self w)" and "send rt opts w = (Normal, w', tr)"
  shows "\<exists>o1 rq resp.
      tr = fired EvRequest ArgOptions (self w)
           @ fired_verb (method_of opts) (o1, w)
           @ [Fetched rq]
           @ fired EvResponse (ArgResponse resp) (self w)
           @ fired (if 200 \<le> resp_status resp \<and> resp_status resp < 300 then EvOk else EvError)
               (ArgResponse resp) (self w)
    \<and> fetch rt rq = Inr resp"
proof (cases rule: send_cases [of rt opts w])
  case (Finished s1 tr1 s2 tr2 u h resp s4 tr4 r s5 tr5)
  from Finished(7) assms(2) have r: "r = Normal"
    and tr: "tr = tr1 @ tr2 @ [Fetched (fetch_init u (method_of opts) h (fst s2))] @ tr4 @ tr5"
    by simp_all
  from pre_hooks_leave [OF assms(1) Finished(1,2)]
  have s1: "self (snd s1) = self w" and s2: "self (snd s2) = self w" .
  from assms(1) s2 have "hooks_leave_client rt (self (snd (fst s2, record_response resp (snd s2))))"
    by (simp add: record_response_leave)
  from post_hooks_leave(1) [OF this Finished(5,6)]
  have s4: "self (snd s4) = self (record_response resp (snd s2))" by simp
  have fv: "fired_verb (method_of opts) s1 = fired_verb (method_of opts) (fst s1, w)"
    using s1 by (cases "method_of opts") (simp_all add: fired_verb_def)
  have ok4: "ok (self (snd s4)) \<longleftrightarrow> 200 \<le> resp_status resp \<and> resp_status resp < 300"
    using s4 by (simp add: ok_def self_record_response)
  have 1: "tr1 = fired EvRequest ArgOptions (self w)"
    using trigger_Normal_fired [OF Finished(1)] by simp
  have 2: "tr2 = fired_verb (method_of opts) (fst s1, w)"
    using trigger_verb_Normal_fired [OF Finished(2)] fv by simp
  have 4: "tr4 = fired EvResponse (ArgResponse resp) (self w)"
    using trigger_Normal_fired [OF Finished(5)] s2 by (simp add: fired_record_response)
  have t5: "trigger rt (if 200 \<le> resp_status resp \<and> resp_status resp < 300 then EvOk else EvError)
              (ArgResponse resp) s4 = (Normal, s5, tr5)"
    using Finished(6) r ok4 by simp
  have "fired (if 200 \<le> resp_status resp \<and> resp_status resp < 300 then EvOk else EvError)
          (ArgResponse resp) (self (snd s4))
        = fired (if 200 \<le> resp_status resp \<and> resp_status resp < 300 then EvOk else EvError)
          (ArgResponse resp) (self w)"
    using s4 s2 by (simp add: fired_record_response)
  with trigger_Normal_fired [OF t5]
  have 5: "tr5 = fired (if 200 \<le> resp_status resp \<and> resp_status resp < 300 then EvOk else EvError)
          (ArgResponse resp) (self w)" by simp
  show ?thesis
    using Finished(4) tr 1 2 4 5 by blast
qed (use assms in simp_all)

subsection \<open>Exceptions of hooks\<close>

text \<open>
  Claim C2, as stated, fails: \<open>trigger\<close> has no handler around the call of a callback.
  With callbacks \<open>0\<close> and \<open>1\<close> registered for \<open>request\<close>, in this order, and \<open>0\<close> throwing,
  callback \<open>1\<close> is not called, the network call is not issued and \<open>send\<close> rejects with
  the exception of callback \<open>0\<close>.
\<close>

theorem send_throwing_hook_counterexample:
  "registered (self fragile) EvRequest = [0, 1]
   \<and> callback browser 0 ArgOptions (get_user, fragile) = (Throw (Error ''boom''), (get_user, fragile))
   \<and> send browser get_user fragile
       = (Throw (Error ''boom''), fragile, [Invoked EvRequest 0 ArgOptions (Throw (Error ''boom''))])"
  using send_fragile by (simp add: registered_def fragile_def browser_def)

text \<open>
  Claim C2, amended. An exception thrown by a callback during \<open>send\<close> is not caught: the
  entry of the callback that threw is the last of the trace (no later callback of that
  event, no later event and no network call follows it) and \<open>send\<close> ends with that
  exception.
\<close>

theorem hook_exception_propagates:
  assumes "send rt opts w = (r, w', tr)"
    and "tr = pre @ Invoked ev cb args (Throw e) # post"
  shows "post = [] \<and> r = Throw e"
proof -
  from assms(2) have "\<not> quiet tr" by (simp add: quiet_simps)
  with send_ends [OF assms(1)] obtain q ev' cb' a' e' where
    r: "r = Throw e'" and tr: "tr = q @ [Invoked ev' cb' a' (Throw e')]" and q: "quiet q"
    unfolding ends_at_throw_def by blast
  have post: "post = []"
  proof (rule ccontr)
    assume "post \<noteq> []"
    then obtain post' x where "post = post' @ [x]" by (metis rev_exhaust)
    with assms(2) tr have "q = pre @ Invoked ev cb args (Throw e) # post'" by simp
    with q show False by (simp add: quiet_simps)
  qed
  with assms(2) tr have "e' = e" by simp
  with r post show ?thesis by simp
qed

theorem hook_exception_propagates_witness:
  "send browser get_user fragile
     = (Throw (Error ''boom''), fragile, [Invoked EvRequest 0 ArgOptions (Throw (Error ''boom''))])
   \<and> [Invoked EvRequest 0 ArgOptions (Throw (Error ''boom''))]
       = [] @ Invoked EvRequest 0 ArgOptions (Throw (Error ''boom'')) # []
   \<and> ([] :: trace) = [] \<and> Throw (Error ''boom'') = Throw (Error ''boom'')"
proof -
  have split: "[Invoked EvRequest 0 ArgOptions (Throw (Error ''boom''))]
       = [] @ Invoked EvRequest 0 ArgOptions (Throw (Error ''boom'')) # []" by simp
  from hook_exception_propagates [OF send_fragile split] send_fragile split show ?thesis by simp
qed

text \<open>
  What does hold of \<open>trigger\<close> alone: when it throws, the registered callbacks split into
  those that returned, the one that threw, and those that were never called.
\<close>

lemma trigger_stops_at_first_exception:
  assumes "trigger rt ev a s = (Throw e, s', tr)"
  shows "\<exists>pre cb post. registered (self (snd s)) ev = pre @ cb # post
           \<and> tr = map (\<lambda>c. Invoked ev c a Normal) pre @ [Invoked ev cb a (Throw e)]"
  using trigger_Throw [OF assms] by blast

subsection \<open>The response envelope\<close>



subsection \<open>What \<open>send\<close> leaves untouched\<close>

lemma send_leave:
  assumes p: "hooks_leave_client rt (self w)" and s: "send rt opts w = (r, w', tr)"
  shows "self w' = self w
       \<or> (\<exists>rq resp. Fetched rq \<in> set tr \<and> fetch rt rq = Inr resp
             \<and> self w' = self (record_response resp w))"
proof (cases rule: send_cases [of rt opts w])
  case (ThrowRequest e s1 tr1)
  have "hooks_leave_client rt (self (snd (opts, w)))" using p by simp
  from trigger_leave [OF this ThrowRequest(1)] have "self (snd s1) = self w" by simp
  moreover from s ThrowRequest(2) have "w' = snd s1" by simp
  ultimately show ?thesis by simp
next
  case (ThrowVerb s1 tr1 e s2 tr2)
  from pre_hooks_leave(2) [OF p ThrowVerb(1,2)] have "self (snd s2) = self w" .
  moreover from s ThrowVerb(3) have "w' = snd s2" by simp
  ultimately show ?thesis by simp
next
  case (ThrowAuth s1 tr1 s2 tr2 e)
  from pre_hooks_leave(2) [OF p ThrowAuth(1,2)] have "self (snd s2) = self w" .
  moreover from s ThrowAuth(4) have "w' = snd s2" by simp
  ultimately show ?thesis by simp
next
  case (ThrowFetch s1 tr1 s2 tr2 u h e)
  from pre_hooks_leave(2) [OF p ThrowFetch(1,2)] have "self (snd s2) = self w" .
  moreover from s ThrowFetch(5) have "w' = snd s2" by simp
  ultimately show ?thesis by simp
next
  case (ThrowResponse s1 tr1 s2 tr2 u h resp e s4 tr4)
  from pre_hooks_leave(2) [OF p ThrowResponse(1,2)] have 2: "self (snd s2) = self w" .
  with p have "hooks_leave_client rt (self (snd (fst s2, record_response resp (snd s2))))"
    by (simp add: record_response_leave)
  from trigger_leave [OF this ThrowResponse(5)]
  have "self (snd s4) = self (record_response resp (snd s2))" by simp
  also have "\<dots> = self (record_response resp w)" using 2 by (simp add: self_record_response)
  finally have "self (snd s4) = self (record_response resp w)" .
  moreover from s ThrowResponse(6) have "w' = snd s4"
    and "Fetched (fetch_init u (method_of opts) h (fst s2)) \<in> set tr" by auto
  ultimately show ?thesis using ThrowResponse(4) by blast
next
  case (Finished s1 tr1 s2 tr2 u h resp s4 tr4 r' s5 tr5)
  from pre_hooks_leave(2) [OF p Finished(1,2)] have 2: "self (snd s2) = self w" .
  with p have "hooks_leave_client rt (self (snd (fst s2, record_response resp (snd s2))))"
    by (simp add: record_response_leave)
  from post_hooks_leave(2) [OF this Finished(5,6)]
  have "self (snd s5) = self (record_response resp (snd s2))" by simp
  also have "\<dots> = self (record_response resp w)" using 2 by (simp add: self_record_response)
  finally have "self (snd s5) = self (record_response resp w)" .
  moreover from s Finished(7) have "w' = snd s5"
    and "Fetched (fetch_init u (method_of opts) h (fst s2)) \<in> set tr" by auto
  ultimately show ?thesis using Finished(4) by blast
qed

text \<open>
  Claim C9. When no registered callback writes to the client, a \<open>send\<close> leaves the base
  URL, the token, the global auth strategy and the hook registry as they were, however
  it ends and whatever the status of the response: the client after the call is the
  client before it with, at most, another envelope.
\<close>

theorem send_frame:
  assumes "hooks_leave_client rt (self w)" and "send rt opts w = (r, w', tr)"
  shows "baseUrl (self w') = baseUrl (self w) \<and> token (self w') = token (self w)
       \<and> globalAuth (self w') = globalAuth (self w) \<and> hooks (self w') = hooks (self w)
       \<and> self w' = (self w)\<lparr>container := container (self w')\<rparr>"
  using send_leave [OF assms] by (auto simp: self_record_response)

theorem send_frame_witness:
  "hooks_leave_client browser (self observed)
   \<and> send browser post_user observed = (Normal, record_response created observed, post_user_trace)
   \<and> resp_status created = 201
   \<and> baseUrl (self (record_response created observed)) = baseUrl (self observed)
   \<and> token (self (record_response created observed)) = token (self observed)
   \<and> globalAuth (self (record_response created observed)) = globalAuth (self observed)
   \<and> hooks (self (record_response created observed)) = hooks (self observed)
   \<and> send browser get_user observed = (Normal, record_response not_found observed, get_user_trace)
   \<and> resp_status not_found = 404
   \<and> baseUrl (self (record_response not_found observed)) = baseUrl (self observed)
   \<and> token (self (record_response not_found observed)) = token (self observed)
   \<and> globalAuth (self (record_response not_found observed)) = globalAuth (self observed)
   \<and> hooks (self (record_response not_found observed)) = hooks (self observed)"
  using send_frame [OF hooks_leave_client_observed send_post_user]
    send_frame [OF hooks_leave_client_observed send_get_user]
    hooks_leave_client_observed send_post_user send_get_user
  by (simp add: created_def not_found_def)

subsection \<open>The explicit \<open>Authorization\<close> header\<close>

text \<open>
  The implicit token does respect a header of the caller: a non-empty \<open>Authorization\<close>
  value among the caller's headers is the one \<open>send\<close> hands to \<open>applyAuth\<close>.
\<close>

lemma build_headers_keeps_explicit:
  assumes "opt_headers opts = Some given" and "given ''Authorization'' = Some v" and "v \<noteq> []"
  shows "build_headers this opts m ''Authorization'' = Some v"
  using assms by (simp add: build_headers_def truthy_def map_add_def)

text \<open>
  Claim C1 does not hold of the code: \<open>applyAuth\<close> assigns \<open>headers["Authorization"]\<close> for
  the bearer variant without looking at what is there. On a client whose global auth
  strategy is the bearer token \<open>G\<close>, a \<open>GET\<close> with the caller's header
  \<open>Authorization: Custom abc\<close> is issued with \<open>Authorization: Bearer G\<close>.
\<close>

theorem send_global_bearer_overwrites_authorization:
  "opt_headers get_me_custom = Some [''Authorization'' \<mapsto> ''Custom abc'']
   \<and> globalAuth (self with_global_bearer) = Some (Bearer ''G'')
   \<and> send browser get_me_custom with_global_bearer
       = (Normal, record_response not_found with_global_bearer, [Fetched get_me_request])
   \<and> rq_headers get_me_request ''Authorization'' = Some ''Bearer G''"
  by (simp add: run_defs browser_def with_global_bearer_def configureAuth_def get_me_custom_def
      new_Carrier_def not_found_def get_me_request_def)

end
